theory Spec2Isabelle
  imports Main
begin

section \<open>Data model\<close>

text \<open>
  The exporter reads job objects of the cluster API. A job has a \<open>metadata\<close> part and a
  \<open>status\<close> part. Timestamps are the API's date-times, which have a resolution of one
  second: they are modelled as seconds since the epoch, and the value of
  \<open>(completion_time - start_time).total_seconds()\<close> as an integer number of seconds.
  Every field the API may leave out (Python \<open>None\<close>) is an \<open>option\<close>.
\<close>

text \<open>
  The exceptions of the model. \<open>MaxRetryError\<close> stands for an exception of the list call
  that is not an \<open>ApiException\<close>, such as the one the HTTP library raises when the server
  cannot be reached.
\<close>

datatype error = TypeError | KeyError | MaxRetryError

record metadata =
  name :: string
  creation_timestamp :: int
  labels :: "(string \<rightharpoonup> string) option"

record status =
  active :: "int option"
  succeeded :: "int option"
  start_time :: "int option"
  completion_time :: "int option"

record job =
  metadata :: metadata
  status :: status

text \<open>
  \<open>JOB_CACHE\<close> is a Python dict from job names to jobs. Python dicts keep the order of
  insertion and \<open>retrieve_jobs\<close> iterates over its values, so the cache is an association
  list in insertion order.
\<close>

type_synonym job_cache = "(string \<times> job) list"

text \<open>
  The bucket boundaries, in seconds. The source appends the string \<open>"+Inf"\<close> to the list
  of numbers, and \<open>float("+Inf")\<close> is positive infinity.
\<close>

datatype bucket = Seconds int | PlusInf

definition DURATION_BUCKETS :: "bucket list" where
  "DURATION_BUCKETS =
     [Seconds 10, Seconds 30, Seconds 60, Seconds 180, Seconds 480,
      Seconds 1200, Seconds 3600, Seconds 7200]"

text \<open>The outcome of \<open>batch_v1_api.list_namespaced_job(namespace)\<close>: the items of the
  returned list, the \<open>ApiException\<close> that \<open>retrieve_jobs\<close> catches, or an exception of
  another class, which no \<open>except\<close> clause of the source catches.\<close>

datatype api_result = Items "job list" | ApiException | OtherException

text \<open>
  A generator is modelled by what it yields, in order, and by the exception that ends it,
  if one does.
\<close>

type_synonym 'a gen = "'a list \<times> error option"

text \<open>
  A metric family carries its name, its documentation, its label names and one entry per
  call of \<open>add_metric\<close>, with the arguments of the call.
\<close>

datatype metric_family =
  CounterMetricFamily string string "string list" "(string list \<times> nat) list"
| HistogramMetricFamily string string "string list"
    "(string list \<times> (string \<times> nat) list \<times> int) list"

type_synonym metrics = "string \<rightharpoonup> metric_family"

section \<open>The job cache\<close>

text \<open>
  \<open>cache_job\<close> returns the cache after the call and the exception raised, if any.
  The test \<open>JOB_LABEL not in job.metadata.labels\<close> raises \<open>TypeError\<close> when the labels
  are \<open>None\<close>. \<open>JOB_LABEL\<close>, read from the environment, is the first argument.
\<close>

definition cache_job :: "string \<Rightarrow> job \<Rightarrow> job_cache \<Rightarrow> job_cache \<times> error option" where
  "cache_job job_label job cache =
     (if name (metadata job) \<notin> set (map fst cache) then
        (if active (status job) = Some 1 then (cache, None)
         else
           (case labels (metadata job) of
              None \<Rightarrow> (cache, Some TypeError)
            | Some ls \<Rightarrow>
                (if ls job_label = None then (cache, None)
                 else (cache @ [(name (metadata job), job)], None))))
      else (cache, None))"

text \<open>The loop \<open>for job in data: cache_job(job)\<close>; an exception ends it.\<close>

fun cache_jobs :: "string \<Rightarrow> job list \<Rightarrow> job_cache \<Rightarrow> job_cache \<times> error option" where
  "cache_jobs job_label [] cache = (cache, None)"
| "cache_jobs job_label (job # data) cache =
     (case cache_job job_label job cache of
        (cache', Some e) \<Rightarrow> (cache', Some e)
      | (cache', None) \<Rightarrow> cache_jobs job_label data cache')"

text \<open>
  \<open>retrieve_jobs\<close>: on \<open>ApiException\<close> the data stay the empty list; an exception of
  another class leaves the function at the call, before the cache is touched. The second
  loop keeps the cached jobs that are not created before \<open>START\<close>, in the order of the
  cache.
\<close>

definition retrieve_jobs ::
  "string \<Rightarrow> int \<Rightarrow> api_result \<Rightarrow> job_cache \<Rightarrow> job_cache \<times> (error + job list)" where
  "retrieve_jobs job_label START res cache =
     (case (case res of
              Items items \<Rightarrow> Inr items
            | ApiException \<Rightarrow> Inr []
            | OtherException \<Rightarrow> Inl MaxRetryError) of
        Inl e \<Rightarrow> (cache, Inl e)
      | Inr data \<Rightarrow>
          (case cache_jobs job_label data cache of
             (cache', Some e) \<Rightarrow> (cache', Inl e)
           | (cache', None) \<Rightarrow>
               (cache', Inr (filter (\<lambda>job. \<not> creation_timestamp (metadata job) < START)
                                    (map snd cache')))))"

section \<open>Aggregation\<close>

text \<open>
  One step of the loop of \<open>get_app_labels\<close> on the dict \<open>labels\<close>: a new key is added
  at the end with the list \<open>[job]\<close>, the list of a key that is there gets the job appended.
\<close>

fun group_append :: "string \<Rightarrow> job \<Rightarrow> (string \<times> job list) list \<Rightarrow> (string \<times> job list) list" where
  "group_append app_label job [] = [(app_label, [job])]"
| "group_append app_label job ((k, data) # rest) =
     (if k = app_label then (k, data @ [job]) # rest
      else (k, data) # group_append app_label job rest)"

text \<open>\<open>job.metadata.labels[JOB_LABEL]\<close>: \<open>TypeError\<close> on \<open>None\<close>, \<open>KeyError\<close> on a
  missing key.\<close>

definition app_label_of :: "string \<Rightarrow> job \<Rightarrow> error + string" where
  "app_label_of job_label job =
     (case labels (metadata job) of
        None \<Rightarrow> Inl TypeError
      | Some ls \<Rightarrow> (case ls job_label of None \<Rightarrow> Inl KeyError | Some v \<Rightarrow> Inr v))"

fun get_app_labels_loop ::
  "string \<Rightarrow> job list \<Rightarrow> (string \<times> job list) list \<Rightarrow> error + (string \<times> job list) list" where
  "get_app_labels_loop job_label [] app_labels = Inr app_labels"
| "get_app_labels_loop job_label (job # jobs) app_labels =
     (case app_label_of job_label job of
        Inl e \<Rightarrow> Inl e
      | Inr app_label \<Rightarrow> get_app_labels_loop job_label jobs (group_append app_label job app_labels))"

definition get_app_labels :: "string \<Rightarrow> job list \<Rightarrow> error + (string \<times> job list) list" where
  "get_app_labels job_label jobs = get_app_labels_loop job_label jobs []"

text \<open>\<open>kubernetes_jobs_total\<close> yields \<open>len(data), [label]\<close> for each group.\<close>

definition kubernetes_jobs_total :: "string \<Rightarrow> job list \<Rightarrow> (nat \<times> string list) gen" where
  "kubernetes_jobs_total job_label jobs =
     (case get_app_labels job_label jobs of
        Inl e \<Rightarrow> ([], Some e)
      | Inr app_labels \<Rightarrow> (map (\<lambda>(label, data). (length data, [label])) app_labels, None))"

text \<open>\<open>duration < float(bucket)\<close>, for a finite duration.\<close>

fun duration_less :: "int \<Rightarrow> bucket \<Rightarrow> bool" where
  "duration_less duration (Seconds b) = (duration < b)"
| "duration_less duration PlusInf = True"

definition find_applicable_buckets :: "int \<Rightarrow> bucket list" where
  "find_applicable_buckets duration =
     filter (duration_less duration) (DURATION_BUCKETS @ [PlusInf])"

text \<open>\<open>str\<close> of a bucket: the decimal digits of a number, the string itself for
  \<open>"+Inf"\<close>.\<close>

function str_nat :: "nat \<Rightarrow> string" where
  "str_nat n =
     (if n < 10 then [''0123456789'' ! n]
      else str_nat (n div 10) @ [''0123456789'' ! (n mod 10)])"
  by pat_completeness auto
termination
  by (relation "measure id") auto

declare str_nat.simps [simp del]

definition str_int :: "int \<Rightarrow> string" where
  "str_int i = (if i < 0 then ''-'' @ str_nat (nat (- i)) else str_nat (nat i))"

fun str_bucket :: "bucket \<Rightarrow> string" where
  "str_bucket (Seconds b) = str_int b"
| "str_bucket PlusInf = ''+Inf''"

text \<open>\<open>buckets_dict[bucket] += 1\<close> for each applicable bucket; a read of a key that is
  not in the dict raises \<open>KeyError\<close>.\<close>

fun increment_buckets :: "bucket list \<Rightarrow> (bucket \<rightharpoonup> nat) \<Rightarrow> error + (bucket \<rightharpoonup> nat)" where
  "increment_buckets [] buckets_dict = Inr buckets_dict"
| "increment_buckets (b # bs) buckets_dict =
     (case buckets_dict b of
        None \<Rightarrow> Inl KeyError
      | Some n \<Rightarrow> increment_buckets bs (buckets_dict(b \<mapsto> n + 1)))"

text \<open>The duration of a job: the subtraction raises \<open>TypeError\<close> when a time is
  \<open>None\<close>.\<close>

definition job_duration :: "job \<Rightarrow> error + int" where
  "job_duration job =
     (case completion_time (status job) of
        None \<Rightarrow> Inl TypeError
      | Some c \<Rightarrow>
          (case start_time (status job) of
             None \<Rightarrow> Inl TypeError
           | Some s \<Rightarrow> Inr (c - s)))"

text \<open>The loop over the jobs of one group, on \<open>buckets_dict\<close> and \<open>durations\<close>.\<close>

fun observe_jobs ::
  "job list \<Rightarrow> (bucket \<rightharpoonup> nat) \<Rightarrow> int \<Rightarrow> error + ((bucket \<rightharpoonup> nat) \<times> int)" where
  "observe_jobs [] buckets_dict durations = Inr (buckets_dict, durations)"
| "observe_jobs (job # jobs) buckets_dict durations =
     (case job_duration job of
        Inl e \<Rightarrow> Inl e
      | Inr duration \<Rightarrow>
          (case increment_buckets (find_applicable_buckets duration) buckets_dict of
             Inl e \<Rightarrow> Inl e
           | Inr buckets_dict' \<Rightarrow> observe_jobs jobs buckets_dict' (durations + duration)))"

text \<open>The final loop, which reads the count of every bucket in order.\<close>

fun read_buckets :: "bucket list \<Rightarrow> (bucket \<rightharpoonup> nat) \<Rightarrow> error + (string \<times> nat) list" where
  "read_buckets [] buckets_dict = Inr []"
| "read_buckets (b # bs) buckets_dict =
     (case buckets_dict b of
        None \<Rightarrow> Inl KeyError
      | Some n \<Rightarrow>
          (case read_buckets bs buckets_dict of
             Inl e \<Rightarrow> Inl e
           | Inr buckets \<Rightarrow> Inr ((str_bucket b, n) # buckets)))"

text \<open>The body of the loop over the groups: the buckets and the sum of one group.\<close>

definition group_histogram :: "job list \<Rightarrow> error + ((string \<times> nat) list \<times> int)" where
  "group_histogram jobs =
     (let duration_buckets = DURATION_BUCKETS @ [PlusInf];
          buckets_dict = fold (\<lambda>bucket d. d(bucket \<mapsto> 0)) duration_buckets Map.empty
      in case observe_jobs jobs buckets_dict 0 of
           Inl e \<Rightarrow> Inl e
         | Inr (buckets_dict', durations) \<Rightarrow>
             (case read_buckets duration_buckets buckets_dict' of
                Inl e \<Rightarrow> Inl e
              | Inr buckets \<Rightarrow> Inr (buckets, durations)))"

text \<open>The loop over the groups: what was yielded before an exception stays yielded.\<close>

fun histogram_groups ::
  "(string \<times> job list) list \<Rightarrow> ((string \<times> nat) list \<times> int \<times> string list) gen" where
  "histogram_groups [] = ([], None)"
| "histogram_groups ((app, jobs) # rest) =
     (case group_histogram jobs of
        Inl e \<Rightarrow> ([], Some e)
      | Inr (buckets, durations) \<Rightarrow>
          (case histogram_groups rest of
             (ys, r) \<Rightarrow> ((buckets, durations, [app]) # ys, r)))"

definition kubernetes_job_duration_seconds ::
  "string \<Rightarrow> job list \<Rightarrow> ((string \<times> nat) list \<times> int \<times> string list) gen" where
  "kubernetes_job_duration_seconds job_label app_jobs =
     (case get_app_labels job_label app_jobs of
        Inl e \<Rightarrow> ([], Some e)
      | Inr groups \<Rightarrow> histogram_groups groups)"

section \<open>The scrape cycle\<close>

text \<open>
  The state of the process is the job cache and the published \<open>metrics\<close>. \<open>scrape\<close>
  returns the state after the call and the exception that left it, if any: an exception
  leaves before \<open>metrics.update\<close>, so the published families stay as they were. Each
  family is filled by one \<open>add_metric\<close> per item its generator yields. Loading the
  cluster configuration and building the API client are outside the model; the outcome of
  the list call is the argument \<open>res\<close>.

  \<open>publish_metrics\<close> is the body of \<open>scrape\<close> after the call of \<open>retrieve_jobs\<close>.
\<close>

definition publish_metrics :: "string \<Rightarrow> job list \<Rightarrow> metrics \<Rightarrow> metrics \<times> error option" where
  "publish_metrics job_label jobs published =
     (case kubernetes_jobs_total job_label jobs of
        (_, Some e) \<Rightarrow> (published, Some e)
      | (totals, None) \<Rightarrow>
          (let error_jobs = filter (\<lambda>job. succeeded (status job) \<noteq> Some 1) jobs
           in case kubernetes_jobs_total job_label error_jobs of
                (_, Some e) \<Rightarrow> (published, Some e)
              | (errors, None) \<Rightarrow>
                  (let succeeded_jobs = filter (\<lambda>job. succeeded (status job) = Some 1) jobs
                   in case kubernetes_job_duration_seconds job_label succeeded_jobs of
                        (_, Some e) \<Rightarrow> (published, Some e)
                      | (histograms, None) \<Rightarrow>
                          (published
                             (''kubernetes_jobs_total'' \<mapsto>
                                CounterMetricFamily ''kubernetes_jobs_total''
                                  ''Count of all kubernetes jobs'' [job_label]
                                  (map (\<lambda>(v, ls). (ls, v)) totals),
                              ''kubernetes_job_errors_total'' \<mapsto>
                                CounterMetricFamily ''kubernetes_job_errors_total''
                                  ''Count of all kubernetes job errors'' [job_label]
                                  (map (\<lambda>(v, ls). (ls, v)) errors),
                              ''kubernetes_job_duration_seconds'' \<mapsto>
                                HistogramMetricFamily ''kubernetes_job_duration_seconds''
                                  ''Histogram of kubernetes job durations'' [job_label]
                                  (map (\<lambda>(bs, s, ls). (ls, bs, s)) histograms)),
                           None))))"

definition scrape ::
  "string \<Rightarrow> int \<Rightarrow> api_result \<Rightarrow> job_cache \<times> metrics \<Rightarrow> (job_cache \<times> metrics) \<times> error option" where
  "scrape job_label START res st =
     (case st of (cache, published) \<Rightarrow>
        (case retrieve_jobs job_label START res cache of
           (cache', Inl e) \<Rightarrow> ((cache', published), Some e)
         | (cache', Inr jobs) \<Rightarrow>
             (case publish_metrics job_label jobs published of
                (published', r) \<Rightarrow> ((cache', published'), r))))"

section \<open>Properties of the cached jobs\<close>

text \<open>A job carries the classification label: its labels are a mapping with the key.\<close>

definition has_label :: "string \<Rightarrow> job \<Rightarrow> bool" where
  "has_label job_label job =
     (case labels (metadata job) of None \<Rightarrow> False | Some ls \<Rightarrow> ls job_label \<noteq> None)"

text \<open>The invariant of the cache: every stored job carries the classification label.\<close>

definition cache_labelled :: "string \<Rightarrow> job_cache \<Rightarrow> bool" where
  "cache_labelled job_label cache = list_all (\<lambda>(k, job). has_label job_label job) cache"

text \<open>The cached jobs created at or after a time, in the order of the cache.\<close>

definition eligible :: "int \<Rightarrow> job_cache \<Rightarrow> job list" where
  "eligible since cache =
     filter (\<lambda>job. since \<le> creation_timestamp (metadata job)) (map snd cache)"

text \<open>The jobs of a list whose classification label has a given value.\<close>

definition label_group :: "string \<Rightarrow> string \<Rightarrow> job list \<Rightarrow> job list" where
  "label_group job_label app jobs = filter (\<lambda>job. app_label_of job_label job = Inr app) jobs"

text \<open>The list of a key in the dict of groups; the empty list for a key that is not there.\<close>

definition group_lookup :: "(string \<times> job list) list \<Rightarrow> string \<Rightarrow> job list" where
  "group_lookup gs k = (case map_of gs k of None \<Rightarrow> [] | Some d \<Rightarrow> d)"

text \<open>The list \<open>DURATION_BUCKETS + ["+Inf"]\<close> that the source builds in two places, and the
  order of the boundaries.\<close>

definition all_buckets :: "bucket list" where
  "all_buckets = DURATION_BUCKETS @ [PlusInf]"

fun bucket_le :: "bucket \<Rightarrow> bucket \<Rightarrow> bool" where
  "bucket_le (Seconds a) (Seconds b) = (a \<le> b)"
| "bucket_le b PlusInf = True"
| "bucket_le PlusInf (Seconds b) = False"

section \<open>Example jobs\<close>

definition mk_job ::
  "string \<Rightarrow> int \<Rightarrow> (string \<rightharpoonup> string) option \<Rightarrow> int option \<Rightarrow> int option \<Rightarrow>
   int option \<Rightarrow> int option \<Rightarrow> job" where
  "mk_job n created ls act succ started completed =
     \<lparr>metadata = \<lparr>name = n, creation_timestamp = created, labels = ls\<rparr>,
      status = \<lparr>active = act, succeeded = succ, start_time = started,
                completion_time = completed\<rparr>\<rparr>"

text \<open>Three succeeded jobs labelled \<open>app=foo\<close> that ran 5, 45 and 400 seconds.\<close>

definition job_a :: job where
  "job_a = mk_job ''a'' 1000 (Some [''app'' \<mapsto> ''foo'']) None (Some 1) (Some 1000) (Some 1005)"

definition job_b :: job where
  "job_b = mk_job ''b'' 1100 (Some [''app'' \<mapsto> ''foo'']) None (Some 1) (Some 1100) (Some 1145)"

definition job_c :: job where
  "job_c = mk_job ''c'' 1200 (Some [''app'' \<mapsto> ''foo'']) None (Some 1) (Some 1200) (Some 1600)"

text \<open>A job that is still running, a job without labels, a job with other labels.\<close>

definition job_running :: job where
  "job_running = mk_job ''r'' 1300 (Some [''app'' \<mapsto> ''foo'']) (Some 1) None (Some 1300) None"

definition job_no_labels :: job where
  "job_no_labels = mk_job ''n'' 1300 None None None None None"

definition job_other_label :: job where
  "job_other_label = mk_job ''o'' 1300 (Some [''team'' \<mapsto> ''x'']) None (Some 1) (Some 1300) (Some 1301)"

text \<open>A job counted as succeeded that has no completion time: two pods run in parallel,
  one has succeeded.\<close>

definition job_unfinished :: job where
  "job_unfinished = mk_job ''u'' 1400 (Some [''app'' \<mapsto> ''bar'']) (Some 2) (Some 1) (Some 1400) None"

text \<open>A job whose completion time is before its start time.\<close>

definition job_backwards :: job where
  "job_backwards = mk_job ''w'' 1500 (Some [''app'' \<mapsto> ''foo'']) None (Some 1) (Some 1500) (Some 1495)"

text \<open>A job created before the start of the process.\<close>

definition job_old :: job where
  "job_old = mk_job ''old'' 100 (Some [''app'' \<mapsto> ''foo'']) None (Some 1) (Some 100) (Some 160)"

section \<open>Grouping by label\<close>


lemma group_append_keys:
  "map fst (group_append a j gs) = (if a \<in> set (map fst gs) then map fst gs else map fst gs @ [a])"
  by (induction gs) force+

lemma group_append_distinct:
  "distinct (map fst gs) \<Longrightarrow> distinct (map fst (group_append a j gs))"
  by (simp add: group_append_keys)


lemma group_append_lookup:
  "group_lookup (group_append a j gs) k = (if k = a then group_lookup gs k @ [j] else group_lookup gs k)"
  by (induction gs) (auto simp: group_lookup_def)

lemma get_app_labels_loop_groups:
  "get_app_labels_loop l jobs acc = Inr gs \<Longrightarrow> distinct (map fst acc) \<Longrightarrow>
     distinct (map fst gs) \<and> (\<forall>k. group_lookup gs k = group_lookup acc k @ label_group l k jobs)
     \<and> set (map fst gs) = set (map fst acc) \<union> {k. \<exists>j \<in> set jobs. app_label_of l j = Inr k}"
proof (induction jobs arbitrary: acc)
  case Nil
  then show ?case by (simp add: label_group_def)
next
  case (Cons job jobs)
  from Cons.prems(1) obtain a where a: "app_label_of l job = Inr a"
    and rest: "get_app_labels_loop l jobs (group_append a job acc) = Inr gs"
    by (auto split: sum.splits)
  from Cons.IH [OF rest group_append_distinct [OF Cons.prems(2)]]
  show ?case using a
    by (auto simp: group_append_lookup group_append_keys label_group_def)
qed

lemma get_app_labels_member:
  assumes "get_app_labels l jobs = Inr gs" and "(app, js) \<in> set gs"
  shows "js = label_group l app jobs"
proof -
  from get_app_labels_loop_groups [of l jobs "[]" gs] assms(1)
  have d: "distinct (map fst gs)" and g: "group_lookup gs app = label_group l app jobs"
    by (simp_all add: get_app_labels_def group_lookup_def)
  from d assms(2) have "map_of gs app = Some js" by simp
  with g show ?thesis by (simp add: group_lookup_def)
qed

lemma get_app_labels_loop_ok:
  "list_all (has_label l) jobs \<Longrightarrow> \<exists>gs. get_app_labels_loop l jobs acc = Inr gs"
  by (induction jobs arbitrary: acc)
     (auto simp: has_label_def app_label_of_def split: option.splits)

lemma get_app_labels_loop_fails:
  "\<not> list_all (has_label l) jobs \<Longrightarrow> \<exists>e. get_app_labels_loop l jobs acc = Inl e"
  by (induction jobs arbitrary: acc)
     (auto simp: has_label_def app_label_of_def split: option.splits)

section \<open>The histogram of one group\<close>

lemma init_buckets:
  "fold (\<lambda>bucket d. d(bucket \<mapsto> 0::nat)) bs m b = (if b \<in> set bs then Some 0 else m b)"
  by (induction bs arbitrary: m) auto

lemma increment_buckets_ok:
  "set bs \<subseteq> dom d \<Longrightarrow>
   \<exists>d'. increment_buckets bs d = Inr d' \<and> dom d' = dom d
        \<and> (\<forall>b. d' b = map_option (\<lambda>n. n + count_list bs b) (d b))"
proof (induction bs arbitrary: d)
  case Nil
  then show ?case by (simp add: option.map_ident)
next
  case (Cons b bs)
  from Cons.prems obtain n where n: "d b = Some n" by auto
  from Cons.prems n have "set bs \<subseteq> dom (d(b \<mapsto> n + 1))" by auto
  from Cons.IH [OF this] obtain d' where
    d': "increment_buckets bs (d(b \<mapsto> n + 1)) = Inr d'" "dom d' = dom (d(b \<mapsto> n + 1))"
      "\<forall>x. d' x = map_option (\<lambda>m. m + count_list bs x) ((d(b \<mapsto> n + 1)) x)"
    by blast
  show ?case using n d' by auto
qed


lemma distinct_all_buckets: "distinct all_buckets"
  by (simp add: all_buckets_def DURATION_BUCKETS_def)

lemma count_applicable:
  "count_list (find_applicable_buckets d) b = (if b \<in> set all_buckets \<and> duration_less d b then 1 else 0)"
proof -
  have "count_list (filter P xs) b = (if b \<in> set xs \<and> P b then 1 else 0)" if "distinct xs" for P xs
    using that by (induction xs) auto
  from this [OF distinct_all_buckets, of "duration_less d"] show ?thesis
    by (simp only: find_applicable_buckets_def all_buckets_def)
qed

lemma applicable_subset: "set (find_applicable_buckets d) \<subseteq> set all_buckets"
  by (auto simp: find_applicable_buckets_def all_buckets_def)

lemma observe_jobs_ok:
  "map job_duration jobs = map Inr ds \<Longrightarrow> set all_buckets \<subseteq> dom bd \<Longrightarrow>
   \<exists>bd'. observe_jobs jobs bd acc = Inr (bd', acc + sum_list ds) \<and> dom bd' = dom bd
     \<and> (\<forall>b \<in> set all_buckets.
           bd' b = map_option (\<lambda>n. n + length (filter (\<lambda>d. duration_less d b) ds)) (bd b))"
proof (induction jobs arbitrary: ds bd acc)
  case Nil
  then show ?case by (simp add: option.map_ident)
next
  case (Cons job jobs)
  from Cons.prems(1) obtain x xs where ds: "ds = x # xs" and x: "job_duration job = Inr x"
    and xs: "map job_duration jobs = map Inr xs"
    by (cases ds) auto
  from Cons.prems(2) applicable_subset [of x]
  have "set (find_applicable_buckets x) \<subseteq> dom bd" by blast
  from increment_buckets_ok [OF this] obtain bd1 where
    bd1: "increment_buckets (find_applicable_buckets x) bd = Inr bd1" "dom bd1 = dom bd"
      "\<forall>b. bd1 b = map_option (\<lambda>n. n + count_list (find_applicable_buckets x) b) (bd b)"
    by blast
  from Cons.prems(2) bd1(2) have "set all_buckets \<subseteq> dom bd1" by simp
  from Cons.IH [OF xs this, of "acc + x"] obtain bd' where
    bd': "observe_jobs jobs bd1 (acc + x) = Inr (bd', acc + x + sum_list xs)" "dom bd' = dom bd1"
      "\<forall>b \<in> set all_buckets.
         bd' b = map_option (\<lambda>n. n + length (filter (\<lambda>d. duration_less d b) xs)) (bd1 b)"
    by blast
  have "\<forall>b \<in> set all_buckets.
         bd' b = map_option (\<lambda>n. n + length (filter (\<lambda>d. duration_less d b) ds)) (bd b)"
    using bd'(3) bd1(3) by (auto simp: ds count_applicable option.map_comp comp_def)
  then show ?case using x bd1 bd' by (simp add: ds add.assoc)
qed

lemma observe_jobs_fails:
  "job \<in> set jobs \<Longrightarrow> job_duration job = Inl TypeError \<Longrightarrow> set all_buckets \<subseteq> dom bd \<Longrightarrow>
   observe_jobs jobs bd acc = Inl TypeError"
proof (induction jobs arbitrary: bd acc)
  case Nil
  then show ?case by simp
next
  case (Cons j jobs)
  show ?case
  proof (cases "job_duration j")
    case (Inl e)
    then have "e = TypeError" by (auto simp: job_duration_def split: option.splits)
    with Inl show ?thesis by simp
  next
    case (Inr x)
    with Cons.prems have mem: "job \<in> set jobs" by auto
    from Cons.prems(3) applicable_subset [of x]
    have "set (find_applicable_buckets x) \<subseteq> dom bd" by blast
    from increment_buckets_ok [OF this] obtain bd1 where
      bd1: "increment_buckets (find_applicable_buckets x) bd = Inr bd1" "dom bd1 = dom bd"
      by blast
    from Cons.prems(3) bd1(2) have "set all_buckets \<subseteq> dom bd1" by simp
    from Cons.IH [OF mem Cons.prems(2) this] Inr bd1(1) show ?thesis by simp
  qed
qed

lemma read_buckets_ok:
  "set bs \<subseteq> dom d \<Longrightarrow> read_buckets bs d = Inr (map (\<lambda>b. (str_bucket b, the (d b))) bs)"
  by (induction bs) auto

lemma init_dom:
  "set all_buckets \<subseteq> dom (fold (\<lambda>bucket d. d(bucket \<mapsto> 0::nat)) all_buckets Map.empty)"
  by (auto simp: init_buckets)

lemma group_histogram_ok:
  assumes "map job_duration jobs = map Inr ds"
  shows "group_histogram jobs =
           Inr (map (\<lambda>b. (str_bucket b, length (filter (\<lambda>d. duration_less d b) ds))) all_buckets,
                sum_list ds)"
proof -
  let ?init = "fold (\<lambda>bucket d. d(bucket \<mapsto> 0::nat)) all_buckets Map.empty"
  from observe_jobs_ok [OF assms init_dom, of 0] obtain bd' where
    bd': "observe_jobs jobs ?init 0 = Inr (bd', sum_list ds)" "dom bd' = dom ?init"
      "\<forall>b \<in> set all_buckets.
         bd' b = map_option (\<lambda>n. n + length (filter (\<lambda>d. duration_less d b) ds)) (?init b)"
    by auto
  from bd'(2) init_dom have sub: "set all_buckets \<subseteq> dom bd'" by simp
  from bd'(3) have "\<forall>b \<in> set all_buckets. the (bd' b) = length (filter (\<lambda>d. duration_less d b) ds)"
    by (simp add: init_buckets)
  then have "map (\<lambda>b. (str_bucket b, the (bd' b))) all_buckets =
             map (\<lambda>b. (str_bucket b, length (filter (\<lambda>d. duration_less d b) ds))) all_buckets"
    by simp
  with read_buckets_ok [OF sub] bd'(1) show ?thesis
    unfolding group_histogram_def Let_def all_buckets_def [symmetric] by simp
qed

lemma group_histogram_fails:
  assumes "job \<in> set jobs" and "job_duration job = Inl TypeError"
  shows "group_histogram jobs = Inl TypeError"
  using observe_jobs_fails [OF assms init_dom, of 0]
  unfolding group_histogram_def Let_def all_buckets_def [symmetric] by simp

lemma job_duration_error: "job_duration job = Inl e \<Longrightarrow> e = TypeError"
  by (auto simp: job_duration_def split: option.splits)

lemma durations_dichotomy:
  "(\<exists>ds. map job_duration jobs = map Inr ds) \<or> (\<exists>job \<in> set jobs. job_duration job = Inl TypeError)"
proof (induction jobs)
  case Nil
  then show ?case by simp
next
  case (Cons j jobs)
  show ?case
  proof (cases "job_duration j")
    case (Inl e)
    with job_duration_error [OF Inl] show ?thesis by simp
  next
    case (Inr x)
    from Cons.IH show ?thesis
    proof
      assume "\<exists>ds. map job_duration jobs = map Inr ds"
      then obtain ds where "map job_duration jobs = map Inr ds" ..
      with Inr have "map job_duration (j # jobs) = map Inr (x # ds)" by simp
      then show ?thesis by blast
    next
      assume "\<exists>job \<in> set jobs. job_duration job = Inl TypeError"
      then show ?thesis by auto
    qed
  qed
qed

lemma group_histogram_Inr:
  assumes "group_histogram jobs = Inr (bs, s)"
  shows "\<exists>ds. map job_duration jobs = map Inr ds \<and> s = sum_list ds
     \<and> bs = map (\<lambda>b. (str_bucket b, length (filter (\<lambda>d. duration_less d b) ds))) all_buckets"
proof -
  from durations_dichotomy [of jobs] show ?thesis
  proof
    assume "\<exists>ds. map job_duration jobs = map Inr ds"
    then obtain ds where ds: "map job_duration jobs = map Inr ds" ..
    from group_histogram_ok [OF ds] assms ds show ?thesis by auto
  next
    assume "\<exists>job \<in> set jobs. job_duration job = Inl TypeError"
    then obtain job where "job \<in> set jobs" "job_duration job = Inl TypeError" by blast
    from group_histogram_fails [OF this] assms show ?thesis by simp
  qed
qed

lemma group_histogram_Inl: "group_histogram jobs = Inl e \<Longrightarrow> e = TypeError"
  using durations_dichotomy [of jobs] group_histogram_ok [of jobs] group_histogram_fails [of _ jobs]
  by auto

lemma histogram_groups_member:
  "histogram_groups gs = (ys, r) \<Longrightarrow> (bs, s, labs) \<in> set ys \<Longrightarrow>
   \<exists>app js. (app, js) \<in> set gs \<and> labs = [app] \<and> group_histogram js = Inr (bs, s)"
proof (induction gs arbitrary: ys r)
  case Nil
  then show ?case by simp
next
  case (Cons g gs)
  obtain app js where g: "g = (app, js)" by (cases g)
  show ?case
  proof (cases "group_histogram js")
    case (Inl e)
    with Cons.prems g show ?thesis by simp
  next
    case (Inr res)
    obtain bs' s' where res: "res = (bs', s')" by (cases res)
    obtain ys' r' where rest: "histogram_groups gs = (ys', r')" by (cases "histogram_groups gs")
    from Cons.prems(1) g Inr res rest have ys: "ys = (bs', s', [app]) # ys'" by simp
    from Cons.prems(2) ys consider "(bs, s, labs) = (bs', s', [app])" | "(bs, s, labs) \<in> set ys'"
      by auto
    then show ?thesis
    proof cases
      case 1
      with g Inr res show ?thesis by auto
    next
      case 2
      from Cons.IH [OF rest 2] show ?thesis by auto
    qed
  qed
qed

lemma histogram_groups_error: "histogram_groups gs = (ys, Some e) \<Longrightarrow> e = TypeError"
proof (induction gs arbitrary: ys)
  case Nil
  then show ?case by simp
next
  case (Cons g gs)
  obtain app js where g: "g = (app, js)" by (cases g)
  show ?case
  proof (cases "group_histogram js")
    case (Inl e')
    with Cons.prems g group_histogram_Inl [OF Inl] show ?thesis by simp
  next
    case (Inr res)
    obtain ys' r' where rest: "histogram_groups gs = (ys', r')" by (cases "histogram_groups gs")
    with Cons.prems g Inr have "r' = Some e" by (auto split: prod.splits)
    with Cons.IH rest show ?thesis by simp
  qed
qed

lemma histogram_groups_None:
  "snd (histogram_groups gs) = None \<longleftrightarrow> (\<forall>(app, js) \<in> set gs. \<exists>res. group_histogram js = Inr res)"
  by (induction gs) (auto split: sum.splits prod.splits)


lemma buckets_ascending: "sorted_wrt bucket_le all_buckets"
  by (simp add: all_buckets_def DURATION_BUCKETS_def)

lemma duration_less_mono: "bucket_le b b' \<Longrightarrow> duration_less d b \<Longrightarrow> duration_less d b'"
  by (cases b; cases b') auto

lemma counts_sorted:
  "sorted (map (\<lambda>b. length (filter (\<lambda>d. duration_less d b) ds)) all_buckets)"
proof -
  have mono: "length (filter (\<lambda>d. duration_less d b) ds) \<le> length (filter (\<lambda>d. duration_less d b') ds)"
    if "bucket_le b b'" for b b'
  proof -
    have "filter (\<lambda>d. duration_less d b) ds = filter (\<lambda>d. duration_less d b) (filter (\<lambda>d. duration_less d b') ds)"
      using duration_less_mono [OF that] by (auto intro: filter_cong)
    then show ?thesis by (metis length_filter_le)
  qed
  show ?thesis
    unfolding sorted_map
    by (rule sorted_wrt_mono_rel [OF _ buckets_ascending]) (simp add: mono)
qed

section \<open>Evaluation of the examples\<close>

lemmas ex_defs = job_a_def job_b_def job_c_def job_running_def job_no_labels_def job_other_label_def
  job_unfinished_def job_backwards_def job_old_def mk_job_def

lemmas eval_defs = kubernetes_job_duration_seconds_def kubernetes_jobs_total_def get_app_labels_def
  app_label_of_def group_histogram_def job_duration_def find_applicable_buckets_def
  DURATION_BUCKETS_def str_int_def str_nat.simps label_group_def

lemma bucket_names:
  "map str_bucket all_buckets =
     [''10'', ''30'', ''60'', ''180'', ''480'', ''1200'', ''3600'', ''7200'', ''+Inf'']"
  by (simp add: all_buckets_def DURATION_BUCKETS_def str_int_def str_nat.simps)

lemma last_all_buckets: "last all_buckets = PlusInf" "all_buckets \<noteq> []"
  by (simp_all add: all_buckets_def)

lemma emitted_group:
  assumes "kubernetes_job_duration_seconds l jobs = (ys, r)" and "(buckets, durations, labs) \<in> set ys"
  shows "\<exists>app ds. labs = [app] \<and> map job_duration (label_group l app jobs) = map Inr ds
            \<and> durations = sum_list ds
            \<and> buckets = map (\<lambda>b. (str_bucket b, length (filter (\<lambda>d. duration_less d b) ds))) all_buckets"
proof -
  from assms obtain gs where gs: "get_app_labels l jobs = Inr gs" and hg: "histogram_groups gs = (ys, r)"
    by (auto simp: kubernetes_job_duration_seconds_def split: sum.splits)
  from histogram_groups_member [OF hg assms(2)] obtain app js where
    m: "(app, js) \<in> set gs" and labs: "labs = [app]" and gh: "group_histogram js = Inr (buckets, durations)"
    by blast
  from get_app_labels_member [OF gs m] have js: "js = label_group l app jobs" .
  from group_histogram_Inr [OF gh] js labs show ?thesis by blast
qed

section \<open>The duration histogram\<close>

text \<open>
  Claim C6. In every group that \<open>kubernetes_job_duration_seconds\<close> emits, the buckets come
  in ascending order of the boundary, their counts never decrease, and the count of the
  \<open>+Inf\<close> bucket is the number of jobs of the input that have the group's label.
\<close>

theorem histogram_cumulative:
  assumes "kubernetes_job_duration_seconds job_label jobs = (ys, r)"
    and "(buckets, durations, labs) \<in> set ys"
  shows "map fst buckets =
           [''10'', ''30'', ''60'', ''180'', ''480'', ''1200'', ''3600'', ''7200'', ''+Inf'']
       \<and> sorted (map snd buckets)
       \<and> (\<exists>app. labs = [app] \<and> last buckets = (''+Inf'', length (label_group job_label app jobs)))"
proof -
  from emitted_group [OF assms] obtain app ds where
    labs: "labs = [app]" and ds: "map job_duration (label_group job_label app jobs) = map Inr ds"
    and b: "buckets = map (\<lambda>b. (str_bucket b, length (filter (\<lambda>d. duration_less d b) ds))) all_buckets"
    by blast
  have "map fst buckets = map str_bucket all_buckets" by (simp add: b comp_def)
  then have 1: "map fst buckets =
      [''10'', ''30'', ''60'', ''180'', ''480'', ''1200'', ''3600'', ''7200'', ''+Inf'']"
    by (simp only: bucket_names)
  have "map snd buckets = map (\<lambda>b. length (filter (\<lambda>d. duration_less d b) ds)) all_buckets"
    by (simp add: b comp_def)
  then have 2: "sorted (map snd buckets)" by (simp only: counts_sorted)
  have "length ds = length (label_group job_label app jobs)"
    using ds by (metis length_map)
  then have 3: "last buckets = (''+Inf'', length (label_group job_label app jobs))"
    by (simp add: b last_map last_all_buckets)
  from 1 2 3 labs show ?thesis by blast
qed

theorem histogram_cumulative_witness:
  "kubernetes_job_duration_seconds ''app'' [job_a, job_b, job_c] =
     ([([(''10'', 1), (''30'', 1), (''60'', 2), (''180'', 2), (''480'', 3), (''1200'', 3),
         (''3600'', 3), (''7200'', 3), (''+Inf'', 3)], 450, [''foo''])], None)
   \<and> sorted [1, 1, 2, 2, 3, 3, 3, 3, 3 :: nat]
   \<and> length (label_group ''app'' ''foo'' [job_a, job_b, job_c]) = 3"
proof -
  have ev: "kubernetes_job_duration_seconds ''app'' [job_a, job_b, job_c] =
     ([([(''10'', 1), (''30'', 1), (''60'', 2), (''180'', 2), (''480'', 3), (''1200'', 3),
         (''3600'', 3), (''7200'', 3), (''+Inf'', 3)], 450, [''foo''])], None)"
    by (simp add: ex_defs eval_defs)
  from histogram_cumulative [OF ev, of _ 450 "[''foo'']"] ev show ?thesis by simp
qed

section \<open>The cache keeps its entries and its invariant\<close>

lemma cache_job_labelled:
  "cache_labelled l c \<Longrightarrow> cache_labelled l (fst (cache_job l job c))"
  by (auto simp: cache_job_def cache_labelled_def has_label_def split: option.splits)

lemma cache_jobs_labelled:
  "cache_labelled l c \<Longrightarrow> cache_labelled l (fst (cache_jobs l data c))"
proof (induction data arbitrary: c)
  case Nil
  then show ?case by simp
next
  case (Cons job data)
  from cache_job_labelled [OF Cons.prems, of job]
  show ?case using Cons.IH [of "fst (cache_job l job c)"]
    by (auto split: prod.splits option.splits)
qed

lemma retrieve_jobs_fst:
  "fst (retrieve_jobs l START res c) =
     fst (cache_jobs l (case res of Items items \<Rightarrow> items | _ \<Rightarrow> []) c)"
  by (simp add: retrieve_jobs_def split: prod.splits option.splits api_result.splits)

lemma retrieve_jobs_labelled:
  "cache_labelled l c \<Longrightarrow> cache_labelled l (fst (retrieve_jobs l START res c))"
  by (simp add: retrieve_jobs_fst cache_jobs_labelled)

lemma retrieve_jobs_eligible:
  "retrieve_jobs l START res c = (c', Inr jobs) \<Longrightarrow> jobs = eligible START c'"
  by (auto simp: retrieve_jobs_def eligible_def not_less
        split: prod.splits option.splits api_result.splits)

lemma scrape_fst:
  "fst (fst (scrape l START res (c, m))) = fst (retrieve_jobs l START res c)"
  by (simp add: scrape_def split: prod.splits sum.splits)

lemma labelled_jobs_group:
  assumes "cache_labelled l c" and "set jobs \<subseteq> snd ` set c"
  shows "\<exists>gs. get_app_labels l jobs = Inr gs"
proof -
  from assms have "list_all (has_label l) jobs"
    by (fastforce simp: cache_labelled_def list_all_iff)
  from get_app_labels_loop_ok [OF this] show ?thesis by (simp add: get_app_labels_def)
qed

lemma eligible_subset: "set (eligible START c) \<subseteq> snd ` set c"
  by (auto simp: eligible_def)

lemma cache_job_keeps:
  "map_of c k = Some j \<Longrightarrow> map_of (fst (cache_job l job c)) k = Some j"
  by (auto simp: cache_job_def map_of_append split: option.splits)

lemma cache_jobs_keeps:
  "map_of c k = Some j \<Longrightarrow> map_of (fst (cache_jobs l data c)) k = Some j"
proof (induction data arbitrary: c)
  case Nil
  then show ?case by simp
next
  case (Cons job data)
  from cache_job_keeps [OF Cons.prems, of l job]
  show ?case using Cons.IH [of "fst (cache_job l job c)"]
    by (auto split: prod.splits option.splits)
qed

section \<open>Admission to the cache\<close>




text \<open>
  Claim C3. When the name of a job is in the cache, \<open>cache_job\<close> with any job of that name
  changes nothing: the size of the cache and the record stored under the name stay as they
  are. No poll overwrites a stored record: what \<open>retrieve_jobs\<close> finds under a key is still
  there after it.
\<close>

theorem cache_job_idempotent:
  assumes "name (metadata job') \<in> set (map fst cache)"
  shows "cache_job job_label job' cache = (cache, None)
       \<and> length (fst (cache_job job_label job' cache)) = length cache
       \<and> map_of (fst (cache_job job_label job' cache)) (name (metadata job'))
           = map_of cache (name (metadata job'))
       \<and> (\<forall>k j. map_of cache k = Some j \<longrightarrow>
             map_of (fst (retrieve_jobs job_label START res cache)) k = Some j)"
proof -
  from assms have "cache_job job_label job' cache = (cache, None)"
    by (simp add: cache_job_def)
  then show ?thesis by (simp add: retrieve_jobs_fst cache_jobs_keeps)
qed

theorem cache_job_idempotent_witness:
  "cache_job ''app'' job_b [(''a'', job_a), (''b'', job_a)] = ([(''a'', job_a), (''b'', job_a)], None)
   \<and> map_of (fst (retrieve_jobs ''app'' 0 (Items [job_b]) [(''a'', job_a), (''b'', job_a)])) ''b''
        = Some job_a"
proof -
  have h: "name (metadata job_b) \<in> set (map fst [(''a'', job_a), (''b'', job_a)])"
    by (simp add: ex_defs)
  from cache_job_idempotent [OF h, of "''app''" 0 "Items [job_b]"] show ?thesis by simp
qed

text \<open>
  Claim C10. For a job whose labels are a mapping, \<open>cache_job\<close> raises nothing and either
  leaves the cache as it is or adds that one entry. For a job whose labels are \<open>None\<close>,
  whose name is not cached and whose active count is not 1, the membership test raises
  \<open>TypeError\<close>.
\<close>

theorem cache_job_raises_only_without_labels:
  "(labels (metadata job) \<noteq> None \<longrightarrow>
      snd (cache_job job_label job cache) = None
      \<and> (fst (cache_job job_label job cache) = cache
         \<or> fst (cache_job job_label job cache) = cache @ [(name (metadata job), job)]))
   \<and> (labels (metadata job) = None \<and> name (metadata job) \<notin> set (map fst cache)
        \<and> active (status job) \<noteq> Some 1 \<longrightarrow>
      cache_job job_label job cache = (cache, Some TypeError))"
  by (auto simp: cache_job_def split: option.splits)

theorem cache_job_raises_only_without_labels_witness:
  "cache_job ''app'' job_no_labels [(''a'', job_a)] = ([(''a'', job_a)], Some TypeError)
   \<and> cache_job ''app'' job_b [(''a'', job_a)] = ([(''a'', job_a), (''b'', job_b)], None)"
  using cache_job_raises_only_without_labels [of job_no_labels "''app''" "[(''a'', job_a)]"]
    cache_job_raises_only_without_labels [of job_b "''app''" "[(''a'', job_a)]"]
  by (simp add: ex_defs cache_job_def)

text \<open>
  Claim C9. Every job in the cache carries the classification label. The empty cache has
  the property, and \<open>cache_job\<close>, \<open>retrieve_jobs\<close> and \<open>scrape\<close> keep it. So
  \<open>get_app_labels\<close> raises nothing on a list of cached jobs, the eligible ones among them.
\<close>

theorem cached_jobs_carry_label:
  "cache_labelled job_label []
   \<and> (cache_labelled job_label cache \<longrightarrow>
        cache_labelled job_label (fst (cache_job job_label job cache))
        \<and> cache_labelled job_label (fst (retrieve_jobs job_label START res cache))
        \<and> cache_labelled job_label (fst (fst (scrape job_label START res (cache, published))))
        \<and> (set jobs \<subseteq> snd ` set cache \<longrightarrow> (\<exists>gs. get_app_labels job_label jobs = Inr gs))
        \<and> (\<exists>gs. get_app_labels job_label (eligible since cache) = Inr gs))"
  using cache_job_labelled [of job_label cache job]
    retrieve_jobs_labelled [of job_label cache START res]
    labelled_jobs_group [of job_label cache jobs]
    labelled_jobs_group [OF _ eligible_subset, of job_label cache since]
  by (simp add: scrape_fst) (simp add: cache_labelled_def)

theorem cached_jobs_carry_label_witness:
  "cache_labelled ''app'' [(''a'', job_a)]
   \<and> cache_labelled ''app'' (fst (cache_job ''app'' job_other_label [(''a'', job_a)]))
   \<and> (\<exists>gs. get_app_labels ''app'' [job_a] = Inr gs)"
proof -
  have h: "cache_labelled ''app'' [(''a'', job_a)]"
    by (simp add: cache_labelled_def has_label_def ex_defs)
  have s: "set [job_a] \<subseteq> snd ` set [(''a'', job_a)]" by simp
  from cached_jobs_carry_label [of "''app''" "[(''a'', job_a)]" job_other_label 0 ApiException
      Map.empty "[job_a]" 0] h s
  show ?thesis by blast
qed

section \<open>The eligible jobs\<close>

text \<open>
  Claim C4. The jobs that \<open>retrieve_jobs\<close> returns are exactly the cached jobs whose
  creation timestamp is at or after \<open>START\<close>. A cached job created before \<open>START\<close> stays
  in the cache and is not in the list, and \<open>scrape\<close> builds its three metric families
  from that list.
\<close>

theorem retrieve_jobs_selects_eligible:
  assumes "retrieve_jobs job_label START res cache = (cache', Inr jobs)"
  shows "jobs = filter (\<lambda>job. START \<le> creation_timestamp (metadata job)) (map snd cache')
       \<and> (\<forall>job. job \<in> set jobs \<longleftrightarrow>
             job \<in> snd ` set cache' \<and> START \<le> creation_timestamp (metadata job))
       \<and> scrape job_label START res (cache, published) =
           (case publish_metrics job_label jobs published of
              (published', r) \<Rightarrow> ((cache', published'), r))"
  using retrieve_jobs_eligible [OF assms] assms
  by (auto simp: eligible_def scrape_def)

theorem retrieve_jobs_selects_eligible_witness:
  "retrieve_jobs ''app'' 1000 (Items [job_old, job_a]) [] =
     ([(''old'', job_old), (''a'', job_a)], Inr [job_a])
   \<and> job_old \<notin> set [job_a]"
proof -
  have ev: "retrieve_jobs ''app'' 1000 (Items [job_old, job_a]) [] =
     ([(''old'', job_old), (''a'', job_a)], Inr [job_a])"
    by (simp add: retrieve_jobs_def cache_job_def ex_defs)
  from retrieve_jobs_selects_eligible [OF ev, of Map.empty] ev show ?thesis
    by (simp add: ex_defs)
qed

section \<open>Strict boundaries\<close>

text \<open>
  Claim C5. For every duration and every boundary of the list
  \<open>10, 30, 60, 180, 480, 1200, 3600, 7200, +Inf\<close>, \<open>find_applicable_buckets\<close> yields the
  boundary, once, exactly when the duration is strictly less than it: a duration equal to
  a finite boundary is not counted in that bucket, and \<open>+Inf\<close> is always yielded.
\<close>

theorem find_applicable_buckets_strict:
  "(\<forall>b. Seconds b \<in> set (DURATION_BUCKETS @ [PlusInf]) \<longrightarrow>
        count_list (find_applicable_buckets duration) (Seconds b) = (if duration < b then 1 else 0))
   \<and> count_list (find_applicable_buckets duration) PlusInf = 1
   \<and> set (find_applicable_buckets duration) \<subseteq> set (DURATION_BUCKETS @ [PlusInf])
   \<and> DURATION_BUCKETS @ [PlusInf] =
        [Seconds 10, Seconds 30, Seconds 60, Seconds 180, Seconds 480, Seconds 1200,
         Seconds 3600, Seconds 7200, PlusInf]"
  using applicable_subset [of duration]
  by (simp add: count_applicable all_buckets_def) (simp add: DURATION_BUCKETS_def)

theorem find_applicable_buckets_strict_witness:
  "Seconds 30 \<in> set (DURATION_BUCKETS @ [PlusInf])
   \<and> count_list (find_applicable_buckets 30) (Seconds 30) = 0
   \<and> count_list (find_applicable_buckets 29) (Seconds 30) = 1
   \<and> find_applicable_buckets 30 =
        [Seconds 60, Seconds 180, Seconds 480, Seconds 1200, Seconds 3600, Seconds 7200, PlusInf]"
proof -
  have h: "Seconds 30 \<in> set (DURATION_BUCKETS @ [PlusInf])" by (simp add: DURATION_BUCKETS_def)
  have ev: "find_applicable_buckets 30 =
        [Seconds 60, Seconds 180, Seconds 480, Seconds 1200, Seconds 3600, Seconds 7200, PlusInf]"
    by (simp add: find_applicable_buckets_def DURATION_BUCKETS_def)
  from find_applicable_buckets_strict [of 30] find_applicable_buckets_strict [of 29] h ev
  show ?thesis by simp
qed

section \<open>The sum of the durations\<close>

lemma publish_metrics_None:
  assumes "publish_metrics l jobs m = (m', None)"
  shows "\<exists>totals errors hists.
      kubernetes_jobs_total l jobs = (totals, None)
    \<and> kubernetes_jobs_total l (filter (\<lambda>job. succeeded (status job) \<noteq> Some 1) jobs) = (errors, None)
    \<and> kubernetes_job_duration_seconds l (filter (\<lambda>job. succeeded (status job) = Some 1) jobs)
        = (hists, None)
    \<and> m' = m
        (''kubernetes_jobs_total'' \<mapsto>
           CounterMetricFamily ''kubernetes_jobs_total''
             ''Count of all kubernetes jobs'' [l] (map (\<lambda>(v, ls). (ls, v)) totals),
         ''kubernetes_job_errors_total'' \<mapsto>
           CounterMetricFamily ''kubernetes_job_errors_total''
             ''Count of all kubernetes job errors'' [l] (map (\<lambda>(v, ls). (ls, v)) errors),
         ''kubernetes_job_duration_seconds'' \<mapsto>
           HistogramMetricFamily ''kubernetes_job_duration_seconds''
             ''Histogram of kubernetes job durations'' [l]
             (map (\<lambda>(bs, s, ls). (ls, bs, s)) hists))"
  using assms
  by (auto simp: publish_metrics_def Let_def split: prod.splits option.splits)

text \<open>
  Claim C7. In every group that \<open>kubernetes_job_duration_seconds\<close> emits, the sum is the sum
  of \<open>completion_time - start_time\<close> over exactly the jobs of the input that have the
  group's label. \<open>scrape\<close> feeds it the eligible jobs with \<open>succeeded == 1\<close> and publishes
  each sum as the \<open>sum_value\<close> of its group.
\<close>

theorem duration_sum_per_group:
  "(kubernetes_job_duration_seconds job_label jobs = (ys, r)
      \<and> (buckets, durations, labs) \<in> set ys \<longrightarrow>
        (\<exists>app ds. labs = [app]
           \<and> map job_duration (label_group job_label app jobs) = map Inr ds
           \<and> durations = sum_list ds))
   \<and> (publish_metrics job_label eligible_jobs published = (published', None) \<longrightarrow>
        (\<exists>samples.
           published' ''kubernetes_job_duration_seconds'' =
             Some (HistogramMetricFamily ''kubernetes_job_duration_seconds''
                     ''Histogram of kubernetes job durations'' [job_label] samples)
           \<and> (\<forall>(labs, buckets, sum_value) \<in> set samples.
                \<exists>app ds. labs = [app]
                  \<and> map job_duration
                       (label_group job_label app
                          (filter (\<lambda>job. succeeded (status job) = Some 1) eligible_jobs))
                      = map Inr ds
                  \<and> sum_value = sum_list ds)))"
proof (intro conjI impI)
  assume "kubernetes_job_duration_seconds job_label jobs = (ys, r)
      \<and> (buckets, durations, labs) \<in> set ys"
  then have a: "kubernetes_job_duration_seconds job_label jobs = (ys, r)"
    and b: "(buckets, durations, labs) \<in> set ys" by simp_all
  from emitted_group [OF a b]
  show "\<exists>app ds. labs = [app]
           \<and> map job_duration (label_group job_label app jobs) = map Inr ds
           \<and> durations = sum_list ds"
    by blast
next
  let ?succ = "filter (\<lambda>job. succeeded (status job) = Some 1) eligible_jobs"
  assume "publish_metrics job_label eligible_jobs published = (published', None)"
  from publish_metrics_None [OF this] obtain hists where
    h: "kubernetes_job_duration_seconds job_label ?succ = (hists, None)"
    and p: "published' ''kubernetes_job_duration_seconds'' =
             Some (HistogramMetricFamily ''kubernetes_job_duration_seconds''
                     ''Histogram of kubernetes job durations'' [job_label]
                     (map (\<lambda>(bs, s, ls). (ls, bs, s)) hists))"
    by auto
  have "\<exists>app ds. labs = [app] \<and> map job_duration (label_group job_label app ?succ) = map Inr ds
           \<and> s = sum_list ds"
    if "(labs, bs, s) \<in> set (map (\<lambda>(bs, s, ls). (ls, bs, s)) hists)" for labs bs s
  proof -
    from that have "(bs, s, labs) \<in> set hists" by auto
    from emitted_group [OF h this] show ?thesis by blast
  qed
  with p show "\<exists>samples.
           published' ''kubernetes_job_duration_seconds'' =
             Some (HistogramMetricFamily ''kubernetes_job_duration_seconds''
                     ''Histogram of kubernetes job durations'' [job_label] samples)
           \<and> (\<forall>(labs, buckets, sum_value) \<in> set samples.
                \<exists>app ds. labs = [app]
                  \<and> map job_duration (label_group job_label app ?succ) = map Inr ds
                  \<and> sum_value = sum_list ds)"
    by blast
qed

theorem duration_sum_per_group_witness:
  "kubernetes_job_duration_seconds ''app'' [job_a, job_b, job_c] =
     ([([(''10'', 1), (''30'', 1), (''60'', 2), (''180'', 2), (''480'', 3), (''1200'', 3),
         (''3600'', 3), (''7200'', 3), (''+Inf'', 3)], 450, [''foo''])], None)
   \<and> snd (publish_metrics ''app'' [job_a, job_b, job_c] Map.empty) = None
   \<and> (\<exists>ds. map job_duration (label_group ''app'' ''foo'' [job_a, job_b, job_c]) = map Inr ds
          \<and> 450 = sum_list ds)
   \<and> (\<exists>samples. fst (publish_metrics ''app'' [job_a, job_b, job_c] Map.empty)
          ''kubernetes_job_duration_seconds'' =
             Some (HistogramMetricFamily ''kubernetes_job_duration_seconds''
                     ''Histogram of kubernetes job durations'' [''app''] samples))"
proof -
  let ?J = "[job_a, job_b, job_c]"
  let ?B = "[(''10'', 1), (''30'', 1), (''60'', 2), (''180'', 2), (''480'', 3), (''1200'', 3),
         (''3600'', 3), (''7200'', 3), (''+Inf'', 3::nat)]"
  have ev: "kubernetes_job_duration_seconds ''app'' ?J = ([(?B, 450, [''foo''])], None)"
    by (simp add: ex_defs eval_defs)
  have sn: "snd (publish_metrics ''app'' ?J Map.empty) = None"
    by (simp add: publish_metrics_def ex_defs eval_defs)
  then have pm: "publish_metrics ''app'' ?J Map.empty = (fst (publish_metrics ''app'' ?J Map.empty), None)"
    by (metis prod.collapse)
  from duration_sum_per_group [of "''app''" ?J "[(?B, 450, [''foo''])]" None ?B 450 "[''foo'']"
      ?J Map.empty "fst (publish_metrics ''app'' ?J Map.empty)"] ev pm sn
  show ?thesis by auto
qed

section \<open>A failed fetch\<close>

lemma retrieve_jobs_no_data:
  "retrieve_jobs l START ApiException c = (c, Inr (eligible START c))"
  "retrieve_jobs l START (Items []) c = (c, Inr (eligible START c))"
  by (simp_all add: retrieve_jobs_def eligible_def not_less)

lemma publish_metrics_again:
  assumes "publish_metrics l jobs m = (m', None)"
  shows "publish_metrics l jobs m' = (m', None)"
proof -
  from publish_metrics_None [OF assms] obtain totals errors hists where
    t: "kubernetes_jobs_total l jobs = (totals, None)"
    and e: "kubernetes_jobs_total l (filter (\<lambda>job. succeeded (status job) \<noteq> Some 1) jobs) = (errors, None)"
    and h: "kubernetes_job_duration_seconds l (filter (\<lambda>job. succeeded (status job) = Some 1) jobs)
        = (hists, None)"
    and m': "m' = m
        (''kubernetes_jobs_total'' \<mapsto>
           CounterMetricFamily ''kubernetes_jobs_total''
             ''Count of all kubernetes jobs'' [l] (map (\<lambda>(v, ls). (ls, v)) totals),
         ''kubernetes_job_errors_total'' \<mapsto>
           CounterMetricFamily ''kubernetes_job_errors_total''
             ''Count of all kubernetes job errors'' [l] (map (\<lambda>(v, ls). (ls, v)) errors),
         ''kubernetes_job_duration_seconds'' \<mapsto>
           HistogramMetricFamily ''kubernetes_job_duration_seconds''
             ''Histogram of kubernetes job durations'' [l]
             (map (\<lambda>(bs, s, ls). (ls, bs, s)) hists))"
    by blast
  show ?thesis
    unfolding publish_metrics_def Let_def t e h by (simp add: m' fun_eq_iff)
qed

text \<open>
  Claim C8, as the code has it. When the list call fails with \<open>ApiException\<close>,
  \<open>retrieve_jobs\<close> and \<open>scrape\<close> do what they do for an empty list of fetched jobs, and the
  cache is unchanged. After a cycle that ended without an exception, a cycle whose fetch
  fails with \<open>ApiException\<close> ends without an exception too and leaves the cache and the
  published metric families as that cycle left them. An exception of another class is not
  caught: \<open>retrieve_jobs\<close> and \<open>scrape\<close> end with it, the cache and the published families
  as they were.
\<close>

theorem failed_fetch_republishes:
  "retrieve_jobs job_label START ApiException cache = retrieve_jobs job_label START (Items []) cache
   \<and> scrape job_label START ApiException (cache, published)
       = scrape job_label START (Items []) (cache, published)
   \<and> fst (fst (scrape job_label START ApiException (cache, published))) = cache
   \<and> (scrape job_label START res st = ((cache, published), None) \<longrightarrow>
        scrape job_label START ApiException (cache, published) = ((cache, published), None))
   \<and> retrieve_jobs job_label START OtherException cache = (cache, Inl MaxRetryError)
   \<and> scrape job_label START OtherException (cache, published)
       = ((cache, published), Some MaxRetryError)"
proof (intro conjI impI)
  show "retrieve_jobs job_label START ApiException cache
          = retrieve_jobs job_label START (Items []) cache"
    by (simp add: retrieve_jobs_no_data)
  then show "scrape job_label START ApiException (cache, published)
       = scrape job_label START (Items []) (cache, published)"
    by (simp add: scrape_def)
  show "fst (fst (scrape job_label START ApiException (cache, published))) = cache"
    by (simp add: scrape_fst retrieve_jobs_no_data)
  show other: "retrieve_jobs job_label START OtherException cache = (cache, Inl MaxRetryError)"
    by (simp add: retrieve_jobs_def)
  then show "scrape job_label START OtherException (cache, published)
       = ((cache, published), Some MaxRetryError)"
    by (simp add: scrape_def)
next
  assume a: "scrape job_label START res st = ((cache, published), None)"
  obtain c0 m0 where st: "st = (c0, m0)" by (cases st)
  from a st obtain jobs where r: "retrieve_jobs job_label START res c0 = (cache, Inr jobs)"
    and p: "publish_metrics job_label jobs m0 = (published, None)"
    by (auto simp: scrape_def split: prod.splits sum.splits)
  from retrieve_jobs_eligible [OF r] have "jobs = eligible START cache" .
  with publish_metrics_again [OF p]
  show "scrape job_label START ApiException (cache, published) = ((cache, published), None)"
    by (simp add: scrape_def retrieve_jobs_no_data)
qed

theorem failed_fetch_republishes_witness:
  "snd (scrape ''app'' 1000 (Items [job_a, job_old]) ([], Map.empty)) = None
   \<and> scrape ''app'' 1000 ApiException (fst (scrape ''app'' 1000 (Items [job_a, job_old]) ([], Map.empty)))
      = scrape ''app'' 1000 (Items [job_a, job_old]) ([], Map.empty)"
proof -
  let ?s = "scrape ''app'' 1000 (Items [job_a, job_old]) ([], Map.empty)"
  have "snd ?s = None"
    by (simp add: scrape_def retrieve_jobs_def cache_job_def publish_metrics_def ex_defs eval_defs)
  then have ev: "?s = ((fst (fst ?s), snd (fst ?s)), None)"
    by (metis prod.collapse)
  from failed_fetch_republishes [of "''app''" 1000 "fst (fst ?s)" "snd (fst ?s)" "Items [job_a, job_old]"
      "([], Map.empty)"] ev \<open>snd ?s = None\<close>
  show ?thesis by (metis prod.collapse)
qed

text \<open>
  The claim as the specification states it, for every failure of the list call, fails for
  a failure that is not an \<open>ApiException\<close>: after a cycle that ended without an exception,
  the next cycle ends with the exception of the call, which nothing in the source catches.
\<close>

theorem fetch_failure_counterexample:
  "snd (scrape ''app'' 1000 (Items [job_a]) ([], Map.empty)) = None
   \<and> snd (scrape ''app'' 1000 OtherException
            (fst (scrape ''app'' 1000 (Items [job_a]) ([], Map.empty)))) = Some MaxRetryError
   \<and> retrieve_jobs ''app'' 1000 OtherException [(''a'', job_a)] = ([(''a'', job_a)], Inl MaxRetryError)"
  by (simp add: scrape_def retrieve_jobs_def cache_job_def publish_metrics_def ex_defs eval_defs
        split: prod.splits)

section \<open>Jobs without times\<close>

lemma get_app_labels_covers:
  assumes "get_app_labels l jobs = Inr gs" and "job \<in> set jobs"
  shows "\<exists>app js. (app, js) \<in> set gs \<and> job \<in> set js"
proof -
  have "list_all (has_label l) jobs"
    using get_app_labels_loop_fails [of l jobs "[]"] assms(1)
    by (auto simp: get_app_labels_def)
  with assms(2) have "has_label l job" by (simp add: list_all_iff)
  then obtain app where app: "app_label_of l job = Inr app"
    by (auto simp: has_label_def app_label_of_def split: option.splits)
  from get_app_labels_loop_groups [of l jobs "[]" gs] assms(1)
  have "set (map fst gs) = {k. \<exists>j \<in> set jobs. app_label_of l j = Inr k}"
    by (simp add: get_app_labels_def)
  with app assms(2) have "app \<in> set (map fst gs)" by blast
  then obtain js where m: "(app, js) \<in> set gs" by auto
  from get_app_labels_member [OF assms(1) m] app assms(2) have "job \<in> set js"
    by (simp add: label_group_def)
  with m show ?thesis by blast
qed

lemma duration_seconds_raises:
  assumes "get_app_labels l jobs = Inr gs" and "job \<in> set jobs"
    and "job_duration job = Inl TypeError"
  shows "snd (kubernetes_job_duration_seconds l jobs) = Some TypeError"
proof -
  from get_app_labels_covers [OF assms(1,2)] obtain app js where
    m: "(app, js) \<in> set gs" and j: "job \<in> set js" by blast
  from group_histogram_fails [OF j assms(3)] have "group_histogram js = Inl TypeError" .
  with m have "snd (histogram_groups gs) \<noteq> None"
    unfolding histogram_groups_None by force
  then obtain e where e: "snd (histogram_groups gs) = Some e" by blast
  then have "histogram_groups gs = (fst (histogram_groups gs), Some e)"
    by (metis prod.collapse)
  from histogram_groups_error [OF this] e assms(1) show ?thesis
    by (simp add: kubernetes_job_duration_seconds_def)
qed

lemma kubernetes_jobs_total_ok:
  "get_app_labels l jobs = Inr gs \<Longrightarrow> snd (kubernetes_jobs_total l jobs) = None"
  by (simp add: kubernetes_jobs_total_def)

text \<open>
  Claim C1, as the code has it. The aggregation has no check of the times. When an
  eligible job with \<open>succeeded == 1\<close> lacks \<open>start_time\<close> or \<open>completion_time\<close>, the
  subtraction raises \<open>TypeError\<close>: \<open>kubernetes_job_duration_seconds\<close> ends with it, and
  \<open>scrape\<close> ends with it after the cache is updated and before \<open>metrics.update\<close>, so no
  new family is published. A negative duration is not rejected: the job is counted in
  every bucket and its duration is added to the sum.
\<close>

theorem missing_time_aborts_scrape:
  assumes "cache_labelled job_label cache"
    and "retrieve_jobs job_label START res cache = (cache', Inr jobs)"
    and "job \<in> set jobs" and "succeeded (status job) = Some 1"
    and "start_time (status job) = None \<or> completion_time (status job) = None"
  shows "snd (kubernetes_job_duration_seconds job_label
                (filter (\<lambda>j. succeeded (status j) = Some 1) jobs)) = Some TypeError
       \<and> scrape job_label START res (cache, published) = ((cache', published), Some TypeError)
       \<and> (job_duration job' = Inr d \<and> d < 0 \<longrightarrow>
            group_histogram [job'] =
              Inr (map (\<lambda>b. (str_bucket b, 1)) (DURATION_BUCKETS @ [PlusInf]), d))"
proof (intro conjI impI)
  let ?succ = "filter (\<lambda>j. succeeded (status j) = Some 1) jobs"
  let ?err = "filter (\<lambda>j. succeeded (status j) \<noteq> Some 1) jobs"
  from retrieve_jobs_labelled [OF assms(1), of START res] assms(2)
  have inv: "cache_labelled job_label cache'" by simp
  from retrieve_jobs_eligible [OF assms(2)] eligible_subset [of START cache']
  have sub: "set jobs \<subseteq> snd ` set cache'" by simp
  from labelled_jobs_group [OF inv sub] obtain g1 where g1: "get_app_labels job_label jobs = Inr g1" ..
  from sub have "set ?err \<subseteq> snd ` set cache'" by auto
  from labelled_jobs_group [OF inv this] obtain g2 where g2: "get_app_labels job_label ?err = Inr g2" ..
  from sub have "set ?succ \<subseteq> snd ` set cache'" by auto
  from labelled_jobs_group [OF inv this] obtain g3 where g3: "get_app_labels job_label ?succ = Inr g3" ..
  from assms(3,4) have mem: "job \<in> set ?succ" by simp
  from assms(5) have dur: "job_duration job = Inl TypeError"
    by (auto simp: job_duration_def split: option.splits)
  from duration_seconds_raises [OF g3 mem dur]
  show raised: "snd (kubernetes_job_duration_seconds job_label ?succ) = Some TypeError" .
  from kubernetes_jobs_total_ok [OF g1] kubernetes_jobs_total_ok [OF g2] raised
  have "publish_metrics job_label jobs published = (published, Some TypeError)"
    by (auto simp: publish_metrics_def Let_def split: prod.splits option.splits)
  with assms(2)
  show "scrape job_label START res (cache, published) = ((cache', published), Some TypeError)"
    by (simp add: scrape_def)
next
  assume "job_duration job' = Inr d \<and> d < 0"
  then have j: "map job_duration [job'] = map Inr [d]" and d: "d < 0" by simp_all
  have "duration_less d b" if "b \<in> set all_buckets" for b
    using that d by (cases b) (auto simp: all_buckets_def DURATION_BUCKETS_def)
  then have "map (\<lambda>b. (str_bucket b, length (filter (\<lambda>x. duration_less x b) [d]))) all_buckets
      = map (\<lambda>b. (str_bucket b, 1)) all_buckets"
    by simp
  with group_histogram_ok [OF j]
  show "group_histogram [job'] = Inr (map (\<lambda>b. (str_bucket b, 1)) (DURATION_BUCKETS @ [PlusInf]), d)"
    by (simp add: all_buckets_def)
qed

theorem missing_time_aborts_scrape_witness:
  "cache_labelled ''app'' []
   \<and> retrieve_jobs ''app'' 1000 (Items [job_a, job_unfinished]) [] =
       ([(''a'', job_a), (''u'', job_unfinished)], Inr [job_a, job_unfinished])
   \<and> succeeded (status job_unfinished) = Some 1
   \<and> completion_time (status job_unfinished) = None
   \<and> scrape ''app'' 1000 (Items [job_a, job_unfinished]) ([], Map.empty) =
       (([(''a'', job_a), (''u'', job_unfinished)], Map.empty), Some TypeError)
   \<and> job_duration job_backwards = Inr (- 5)
   \<and> group_histogram [job_backwards] =
       Inr (map (\<lambda>b. (str_bucket b, 1)) (DURATION_BUCKETS @ [PlusInf]), - 5)"
proof -
  have h1: "cache_labelled ''app'' []" by (simp add: cache_labelled_def)
  have h2: "retrieve_jobs ''app'' 1000 (Items [job_a, job_unfinished]) [] =
       ([(''a'', job_a), (''u'', job_unfinished)], Inr [job_a, job_unfinished])"
    by (simp add: retrieve_jobs_def cache_job_def ex_defs)
  have h3: "job_unfinished \<in> set [job_a, job_unfinished]" by simp
  have h4: "succeeded (status job_unfinished) = Some 1" by (simp add: ex_defs)
  have h5: "completion_time (status job_unfinished) = None" by (simp add: ex_defs)
  then have h5': "start_time (status job_unfinished) = None
      \<or> completion_time (status job_unfinished) = None" ..
  have h6: "job_duration job_backwards = Inr (- 5)" by (simp add: job_duration_def ex_defs)
  from missing_time_aborts_scrape [OF h1 h2 h3 h4 h5',
      where job' = job_backwards and d = "- 5" and published = Map.empty]
    h1 h2 h4 h5 h6
  show ?thesis by simp
qed

text \<open>
  The claim as the specification states it, that such a job is skipped and the cycle
  completes, fails: with a succeeded job that has no completion time the cycle ends with
  \<open>TypeError\<close> and publishes nothing, the aggregation emits no histogram when that job's
  group is the first, and a job that ran \<open>-5\<close> seconds is counted in every bucket.
\<close>

theorem skip_invalid_duration_counterexample:
  "scrape ''app'' 1000 (Items [job_a, job_unfinished]) ([], Map.empty) =
       (([(''a'', job_a), (''u'', job_unfinished)], Map.empty), Some TypeError)
   \<and> kubernetes_job_duration_seconds ''app'' [job_unfinished, job_a] = ([], Some TypeError)
   \<and> kubernetes_job_duration_seconds ''app'' [job_backwards] =
       ([([(''10'', 1), (''30'', 1), (''60'', 1), (''180'', 1), (''480'', 1), (''1200'', 1),
           (''3600'', 1), (''7200'', 1), (''+Inf'', 1)], - 5, [''foo''])], None)"
  by (simp add: scrape_def retrieve_jobs_def cache_job_def publish_metrics_def ex_defs eval_defs)

end
